theory Spec2Isabelle
  imports Complex_Main
begin

section \<open>Python values and exceptions\<close>

text \<open>
  Sequences are Python \<open>str\<close> values, modelled as \<open>string\<close>; a column is a list of
  one-character strings, modelled as a list of characters.  Python's unbounded \<open>int\<close> is
  \<open>int\<close> (\<open>nat\<close> for counts and lengths).

  Every exception the code can raise is a value of \<open>py_error\<close>.  The two exceptions the
  code raises itself are plain \<open>Exception\<close> objects, told apart by their message.
\<close>

datatype py_error =
    Exception string
  | IndexError
  | ZeroDivisionError
  | ValueError
  | URLError
  | InvalidURL
  | UnicodeDecodeError
  | FileNotFoundError

definition AlignmentLengthMismatch :: py_error where
  "AlignmentLengthMismatch = Exception ''All the sequences in the FASTA file must be aligned!''"

definition StructureNotFound :: py_error where
  "StructureNotFound = Exception ''PDB not found in rcsb''"

text \<open>\<open>xs[i]\<close> for a non-negative index: out of range raises \<open>IndexError\<close>.\<close>

definition py_index :: "'a list \<Rightarrow> nat \<Rightarrow> py_error + 'a" where
  "py_index xs i = (if i < length xs then Inr (xs ! i) else Inl IndexError)"

section \<open>Floating point\<close>

text \<open>
  A Python \<open>float\<close> is a binary64 number, modelled as the real number it stands for.
  Every arithmetic operation returns the exact result rounded to binary64, so the
  operations take the rounding \<open>rnd\<close> as a parameter; \<open>math.log\<close>, which the language
  does not specify to the last bit, is the parameter \<open>flog\<close>.  An \<open>int\<close> operand is
  converted to the \<open>float\<close> of the same value first (the integers of this module are
  small enough for that to be exact), and results stay far from the overflow
  threshold.
\<close>

record float_ops =
  rnd :: "real \<Rightarrow> real"
  flog :: "real \<Rightarrow> real"

definition fadd :: "float_ops \<Rightarrow> real \<Rightarrow> real \<Rightarrow> real" where
  "fadd fl x y = rnd fl (x + y)"

definition fsub :: "float_ops \<Rightarrow> real \<Rightarrow> real \<Rightarrow> real" where
  "fsub fl x y = rnd fl (x - y)"

definition fmul :: "float_ops \<Rightarrow> real \<Rightarrow> real \<Rightarrow> real" where
  "fmul fl x y = rnd fl (x * y)"

text \<open>True division \<open>a / b\<close> of two integers: the quotient, rounded once.\<close>

definition true_div :: "float_ops \<Rightarrow> nat \<Rightarrow> nat \<Rightarrow> real" where
  "true_div fl a b = rnd fl (real a / real b)"

definition py_truediv :: "float_ops \<Rightarrow> nat \<Rightarrow> nat \<Rightarrow> py_error + real" where
  "py_truediv fl a b = (if b = 0 then Inl ZeroDivisionError else Inr (true_div fl a b))"

text \<open>\<open>math.log(x)\<close>: a non-positive argument raises \<open>ValueError\<close>.\<close>

definition py_log :: "float_ops \<Rightarrow> real \<Rightarrow> py_error + real" where
  "py_log fl x = (if x \<le> 0 then Inl ValueError else Inr (flog fl x))"

text \<open>
  Rounding to binary64: to the nearest multiple of the unit in the last of 53 binary
  places, a tie going to the even multiple.  The exponent is not bounded here (no
  overflow to infinity, no subnormal numbers).
\<close>

definition round_half_even :: "real \<Rightarrow> int" where
  "round_half_even y =
     (let f = \<lfloor>y\<rfloor>
      in if y - of_int f < 1 / 2 then f
         else if 1 / 2 < y - of_int f then f + 1
         else if even f then f else f + 1)"

definition binary64 :: "real \<Rightarrow> real" where
  "binary64 x =
     (if x = 0 then 0
      else (let ulp = 2 powr of_int (\<lfloor>log 2 \<bar>x\<bar>\<rfloor> - 52)
            in of_int (round_half_even (x / ulp)) * ulp))"

text \<open>Binary64 arithmetic with a correctly rounded logarithm.\<close>

definition binary64_ops :: float_ops where
  "binary64_ops = \<lparr>rnd = binary64, flog = (\<lambda>x. binary64 (ln x))\<rparr>"

section \<open>Score.compute\<close>

text \<open>
  \<open>all(len(sequence) == len(aligned_sequences[0]) for sequence in aligned_sequences)\<close>:
  the generator reads \<open>aligned_sequences[0]\<close> once per element, so on the empty list
  nothing is read and the result is \<open>True\<close>.
\<close>

definition all_same_length :: "string list \<Rightarrow> bool" where
  "all_same_length aligned_sequences =
     (case aligned_sequences of
        [] \<Rightarrow> True
      | first # _ \<Rightarrow> list_all (\<lambda>sequence. length sequence = length first) aligned_sequences)"

text \<open>
  \<open>compute\<close> is inherited by every subclass of \<open>Score\<close>; the subclass's \<open>evaluate\<close> is
  the first argument.
\<close>

definition compute :: "(string list \<Rightarrow> py_error + 'a) \<Rightarrow> string list \<Rightarrow> py_error + 'a" where
  "compute evaluate aligned_sequences =
     (if \<not> all_same_length aligned_sequences then Inl AlignmentLengthMismatch
      else evaluate aligned_sequences)"

section \<open>The column loop\<close>

text \<open>
  The inner loop \<open>for sequence in sequences: column.append(sequence[k])\<close>: a sequence
  shorter than \<open>k + 1\<close> raises \<open>IndexError\<close>.
\<close>

fun get_column :: "string list \<Rightarrow> nat \<Rightarrow> py_error + string" where
  "get_column [] k = Inr []"
| "get_column (sequence # rest) k =
     (case py_index sequence k of
        Inl e \<Rightarrow> Inl e
      | Inr c \<Rightarrow> (case get_column rest k of
                   Inl e \<Rightarrow> Inl e
                 | Inr column \<Rightarrow> Inr (c # column)))"

text \<open>
  The outer loop \<open>for k in range(length_of_sequence)\<close>, with the running total as
  accumulator; \<open>body column acc\<close> is what one iteration does with its column.
\<close>

fun for_columns ::
  "(string \<Rightarrow> 'a \<Rightarrow> py_error + 'a) \<Rightarrow> string list \<Rightarrow> nat list \<Rightarrow> 'a \<Rightarrow> py_error + 'a" where
  "for_columns body sequences [] acc = Inr acc"
| "for_columns body sequences (k # ks) acc =
     (case get_column sequences k of
        Inl e \<Rightarrow> Inl e
      | Inr column \<Rightarrow> (case body column acc of
                       Inl e \<Rightarrow> Inl e
                     | Inr acc' \<Rightarrow> for_columns body sequences ks acc'))"

section \<open>Entropy\<close>

text \<open>
  A \<open>dict\<close> as an association list in insertion order: assigning to a key that is
  present replaces its value in place, a new key goes to the end.
\<close>

fun dict_set :: "('k \<times> 'v) list \<Rightarrow> 'k \<Rightarrow> 'v \<Rightarrow> ('k \<times> 'v) list" where
  "dict_set [] k v = [(k, v)]"
| "dict_set (p # ps) k v = (if fst p = k then (k, v) # ps else p # dict_set ps k v)"

fun dict_get :: "('k \<times> 'v) list \<Rightarrow> 'k \<Rightarrow> 'v \<Rightarrow> 'v" where
  "dict_get [] k dflt = dflt"
| "dict_get (p # ps) k dflt = (if fst p = k then snd p else dict_get ps k dflt)"

text \<open>\<open>dict(pairs)\<close>.\<close>

definition dict_of :: "('k \<times> 'v) list \<Rightarrow> ('k \<times> 'v) list" where
  "dict_of pairs = foldl (\<lambda>d p. dict_set d (fst p) (snd p)) [] pairs"

text \<open>
  \<open>get_words_frequencies\<close>.  The division by \<open>len(words)\<close> is evaluated once per element
  of \<open>words\<close>, hence only when \<open>words\<close> is not empty: it cannot raise.
\<close>

definition get_words_frequencies :: "float_ops \<Rightarrow> string \<Rightarrow> (char \<times> real) list" where
  "get_words_frequencies fl words =
     (let word_freq = map (\<lambda>w. true_div fl (count_list words w) (length words)) words
      in dict_of (zip words word_freq))"

text \<open>
  The loop of \<open>get_column_entropy\<close> over the items of the dict:
  \<open>current_entropy += value * math.log(value)\<close>.
\<close>

fun column_entropy_loop ::
  "float_ops \<Rightarrow> (char \<times> real) list \<Rightarrow> real \<Rightarrow> py_error + real" where
  "column_entropy_loop fl [] current_entropy = Inr current_entropy"
| "column_entropy_loop fl (item # items) current_entropy =
     (case py_log fl (snd item) of
        Inl e \<Rightarrow> Inl e
      | Inr l \<Rightarrow>
          column_entropy_loop fl items (fadd fl current_entropy (fmul fl (snd item) l)))"

definition get_column_entropy :: "float_ops \<Rightarrow> (char \<times> real) list \<Rightarrow> py_error + real" where
  "get_column_entropy fl column = column_entropy_loop fl column 0"

definition Entropy_evaluate :: "float_ops \<Rightarrow> string list \<Rightarrow> py_error + real" where
  "Entropy_evaluate fl sequences =
     (case py_index sequences 0 of
        Inl e \<Rightarrow> Inl e
      | Inr first \<Rightarrow>
          for_columns
            (\<lambda>column final_score.
               case get_column_entropy fl (get_words_frequencies fl column) of
                 Inl e \<Rightarrow> Inl e
               | Inr h \<Rightarrow> Inr (fadd fl final_score h))
            sequences [0..<length first] 0)"

section \<open>Star\<close>

text \<open>
  The substitution matrix class is not part of the scoring module; its
  \<open>get_distance\<close> is the parameter \<open>substitution_matrix\<close>, an integer for every pair of
  symbols, so that \<open>get_score_of_two_chars\<close> (which applies \<open>int\<close> to it) returns it as
  it is.
\<close>

definition get_score_of_two_chars :: "(char \<Rightarrow> char \<Rightarrow> int) \<Rightarrow> char \<Rightarrow> char \<Rightarrow> int" where
  "get_score_of_two_chars substitution_matrix char_a char_b = substitution_matrix char_a char_b"

text \<open>
  \<open>Counter(column)\<close> counts the elements from left to right into a dict, so its keys
  stand in the order of their first occurrence.
\<close>

definition Counter :: "'a list \<Rightarrow> ('a \<times> nat) list" where
  "Counter elems = foldl (\<lambda>d elem. dict_set d elem (dict_get d elem 0 + 1)) [] elems"

text \<open>
  \<open>most_common(1)\<close> is \<open>heapq.nlargest(1, items, key=count)\<close>, which is \<open>max\<close> over the
  items by count: the first item with the largest count, and the empty list for no items.
\<close>

fun max_by_count :: "('a \<times> nat) \<Rightarrow> ('a \<times> nat) list \<Rightarrow> ('a \<times> nat)" where
  "max_by_count best [] = best"
| "max_by_count best (item # items) =
     (if snd best < snd item then max_by_count item items else max_by_count best items)"

definition most_common_1 :: "('a \<times> nat) list \<Rightarrow> ('a \<times> nat) list" where
  "most_common_1 items = (case items of [] \<Rightarrow> [] | item # rest \<Rightarrow> [max_by_count item rest])"

fun score_against :: "(char \<Rightarrow> char \<Rightarrow> int) \<Rightarrow> char \<Rightarrow> string \<Rightarrow> int \<Rightarrow> int" where
  "score_against substitution_matrix most_frequent_char [] score_of_column = score_of_column"
| "score_against substitution_matrix most_frequent_char (c # column) score_of_column =
     score_against substitution_matrix most_frequent_char column
       (score_of_column + get_score_of_two_chars substitution_matrix most_frequent_char c)"

definition Star_get_score_of_k_column :: "(char \<Rightarrow> char \<Rightarrow> int) \<Rightarrow> string \<Rightarrow> py_error + int" where
  "Star_get_score_of_k_column substitution_matrix column =
     (case py_index (most_common_1 (Counter column)) 0 of
        Inl e \<Rightarrow> Inl e
      | Inr item \<Rightarrow> Inr (score_against substitution_matrix (fst item) column 0))"

definition Star_evaluate :: "(char \<Rightarrow> char \<Rightarrow> int) \<Rightarrow> string list \<Rightarrow> py_error + int" where
  "Star_evaluate substitution_matrix sequences =
     (case py_index sequences 0 of
        Inl e \<Rightarrow> Inl e
      | Inr first \<Rightarrow>
          for_columns
            (\<lambda>column final_score.
               case Star_get_score_of_k_column substitution_matrix column of
                 Inl e \<Rightarrow> Inl e
               | Inr s \<Rightarrow> Inr (final_score + s))
            sequences [0..<length first] 0)"

section \<open>SumOfPairs\<close>

text \<open>
  \<open>itertools.combinations(column, 2)\<close>: the pairs of elements at positions \<open>i < j\<close>, in
  lexicographic order of the positions.
\<close>

fun possible_combinations :: "'a list \<Rightarrow> ('a \<times> 'a) list" where
  "possible_combinations [] = []"
| "possible_combinations (x # xs) = map (Pair x) xs @ possible_combinations xs"

fun score_pairs :: "(char \<Rightarrow> char \<Rightarrow> int) \<Rightarrow> (char \<times> char) list \<Rightarrow> int \<Rightarrow> int" where
  "score_pairs substitution_matrix [] score_of_column = score_of_column"
| "score_pairs substitution_matrix (pair # pairs) score_of_column =
     score_pairs substitution_matrix pairs
       (score_of_column + get_score_of_two_chars substitution_matrix (fst pair) (snd pair))"

definition SumOfPairs_get_score_of_k_column :: "(char \<Rightarrow> char \<Rightarrow> int) \<Rightarrow> string \<Rightarrow> int" where
  "SumOfPairs_get_score_of_k_column substitution_matrix column =
     score_pairs substitution_matrix (possible_combinations column) 0"

definition SumOfPairs_evaluate :: "(char \<Rightarrow> char \<Rightarrow> int) \<Rightarrow> string list \<Rightarrow> py_error + int" where
  "SumOfPairs_evaluate substitution_matrix sequences =
     (case py_index sequences 0 of
        Inl e \<Rightarrow> Inl e
      | Inr first \<Rightarrow>
          for_columns
            (\<lambda>column final_score.
               Inr (final_score + SumOfPairs_get_score_of_k_column substitution_matrix column))
            sequences [0..<length first] 0)"

section \<open>PercentageOfNonGaps\<close>

fun count_gaps :: "string list \<Rightarrow> nat \<Rightarrow> nat" where
  "count_gaps [] no_of_gaps = no_of_gaps"
| "count_gaps (sequence # rest) no_of_gaps =
     count_gaps rest (no_of_gaps + count_list sequence (CHR ''-''))"

text \<open>
  \<open>100 - (no_of_gaps / (length_of_sequence * len(align_sequences)) * 100)\<close>: a division,
  a multiplication and a subtraction, each rounded.
\<close>

definition PercentageOfNonGaps_evaluate :: "float_ops \<Rightarrow> string list \<Rightarrow> py_error + real" where
  "PercentageOfNonGaps_evaluate fl align_sequences =
     (case py_index align_sequences 0 of
        Inl e \<Rightarrow> Inl e
      | Inr first \<Rightarrow>
          (let length_of_sequence = length first;
               no_of_gaps = count_gaps align_sequences 0
           in case py_truediv fl no_of_gaps (length_of_sequence * length align_sequences) of
                Inl e \<Rightarrow> Inl e
              | Inr q \<Rightarrow> Inr (fsub fl 100 (fmul fl q 100))))"

definition PercentageOfNonGaps_is_minimization :: bool where
  "PercentageOfNonGaps_is_minimization = True"

section \<open>PercentageOfTotallyConservedColumns\<close>

text \<open>
  \<open>no_of_conserved_columns / length_sequence * 100\<close>: a division and a multiplication,
  each rounded.
\<close>

definition PercentageOfTotallyConservedColumns_evaluate ::
  "float_ops \<Rightarrow> string list \<Rightarrow> py_error + real" where
  "PercentageOfTotallyConservedColumns_evaluate fl sequences =
     (case py_index sequences 0 of
        Inl e \<Rightarrow> Inl e
      | Inr first \<Rightarrow>
          (let length_sequence = length first
           in case for_columns
                     (\<lambda>column no_of_conserved_columns.
                        Inr (if card (set column) \<le> 1 then no_of_conserved_columns + 1
                             else no_of_conserved_columns))
                     sequences [0..<length_sequence] (0::nat) of
                Inl e \<Rightarrow> Inl e
              | Inr no_of_conserved_columns \<Rightarrow>
                  (case py_truediv fl no_of_conserved_columns length_sequence of
                     Inl e \<Rightarrow> Inl e
                   | Inr q \<Rightarrow> Inr (fmul fl q 100))))"

section \<open>Strike\<close>

text \<open>
  \<open>Strike\<close> is a class of its own, not a subclass of \<open>Score\<close>.  It works on the file
  system, the network and an external program, so its methods take the world and
  return it with their result.  The world holds the working directory, the directories
  and the regular files (by absolute path, with their content), and the URLs requested
  so far.  Opening a file for writing fails when its directory does not exist; the other
  failures of the operating system (permissions, full disks) are outside the model.
\<close>

type_synonym path = string

record world =
  cwd :: path
  dirs :: "path set"
  files :: "path \<rightharpoonup> string"
  requests :: "string list"

text \<open>
  What \<open>urllib.request.urlopen\<close> does for a URL: it returns a response with a body,
  raises \<open>HTTPError\<close> (the server answered with an error status), raises \<open>URLError\<close>
  (the server could not be reached), or raises something else (\<open>InvalidURL\<close> for a URL
  it cannot send).  \<open>HTTPError\<close> is a subclass of \<open>URLError\<close>, so \<open>except HTTPError\<close>
  catches neither a plain \<open>URLError\<close> nor the others.
\<close>

datatype urlopen_result =
    Body string
  | Raises_HTTPError nat
  | Raises_URLError
  | Raises_other py_error

text \<open>
  The collaborators of \<open>Strike\<close> that are not part of the scoring module: the network,
  the \<open>unicode_escape\<close> codec (reading the body of the response and decoding it, which
  can raise), and \<open>StrikeEx(exe).run(parameters)\<close>, which reads the world and the paths
  of the executable, the connectivity file and the alignment file.
\<close>

record env =
  urlopen :: "string \<Rightarrow> urlopen_result"
  unicode_escape :: "string \<Rightarrow> py_error + string"
  StrikeEx_run :: "world \<Rightarrow> path \<Rightarrow> path \<Rightarrow> path \<Rightarrow> py_error + real"

text \<open>
  \<open>os.path.abspath\<close>: an absolute path stays, a relative one is joined to the working
  directory.  (The paths of this module have no \<open>.\<close>, \<open>..\<close> or doubled separators to
  normalise.)
\<close>

definition abspath :: "path \<Rightarrow> path \<Rightarrow> path" where
  "abspath wd p = (if take 1 p = ''/'' then p else wd @ ''/'' @ p)"

definition is_file :: "world \<Rightarrow> path \<Rightarrow> bool" where
  "is_file w p = (files w (abspath (cwd w) p) \<noteq> None)"

text \<open>\<open>os.makedirs(p, exist_ok=True)\<close>.\<close>

definition makedirs :: "world \<Rightarrow> path \<Rightarrow> world" where
  "makedirs w p = w\<lparr>dirs := insert (abspath (cwd w) p) (dirs w)\<rparr>"

text \<open>The directory a path lies in: the path up to its last separator.\<close>

definition dirname :: "path \<Rightarrow> path" where
  "dirname p = rev (drop 1 (dropWhile (\<lambda>c. c \<noteq> CHR ''/'') (rev p)))"

definition can_open :: "world \<Rightarrow> path \<Rightarrow> bool" where
  "can_open w p = (dirname (abspath (cwd w) p) \<in> dirs w)"

text \<open>
  \<open>open(p, "w+")\<close> creates the file, or empties it when it exists; it raises
  \<open>FileNotFoundError\<close> when the directory of \<open>p\<close> does not exist.
\<close>

definition open_w :: "world \<Rightarrow> path \<Rightarrow> py_error + world" where
  "open_w w p =
     (if can_open w p then Inr (w\<lparr>files := (files w)(abspath (cwd w) p \<mapsto> [])\<rparr>)
      else Inl FileNotFoundError)"

text \<open>Writing to a file opened so appends to what was written since.\<close>

definition write_file :: "world \<Rightarrow> path \<Rightarrow> string \<Rightarrow> world" where
  "write_file w p txt =
     w\<lparr>files := (files w)(abspath (cwd w) p \<mapsto>
          (case files w (abspath (cwd w) p) of None \<Rightarrow> txt | Some old \<Rightarrow> old @ txt))\<rparr>"

record strike =
  out_connection_path :: path
  out_alignment_path :: path
  exe_path :: path

definition Strike_init :: "world \<Rightarrow> path \<Rightarrow> strike" where
  "Strike_init w exe =
     \<lparr>out_connection_path = abspath (cwd w) ''strike/in.con'',
      out_alignment_path = abspath (cwd w) ''strike/aln.fa'',
      exe_path = abspath (cwd w) exe\<rparr>"

definition get_pdb :: "env \<Rightarrow> string \<Rightarrow> world \<Rightarrow> (py_error + path) \<times> world" where
  "get_pdb ev pdb_id w =
     (let base_url = ''https://files.rcsb.org/download/'' @ pdb_id @ ''.pdb'';
          out_pdb_path = ''strike/'' @ pdb_id @ ''.pdb''
      in if \<not> is_file w out_pdb_path then
           (let w1 = w\<lparr>requests := requests w @ [base_url]\<rparr>
            in case urlopen ev base_url of
                 Raises_HTTPError code \<Rightarrow> (Inl StructureNotFound, w1)
               | Raises_URLError \<Rightarrow> (Inl URLError, w1)
               | Raises_other e \<Rightarrow> (Inl e, w1)
               | Body bytes \<Rightarrow>
                   (case open_w w1 out_pdb_path of
                      Inl e \<Rightarrow> (Inl e, w1)
                    | Inr w2 \<Rightarrow>
                        (case unicode_escape ev bytes of
                           Inl e \<Rightarrow> (Inl e, w2)
                         | Inr txt \<Rightarrow> (Inr out_pdb_path, write_file w2 out_pdb_path txt))))
         else (Inr out_pdb_path, w))"

text \<open>
  The loop \<open>for i in range(len(align_sequences))\<close> of \<open>evaluate\<close>, in the order the
  source evaluates it: \<open>sequences_id[i]\<close>, \<open>get_pdb\<close>, \<open>chains[i]\<close>, the line of the
  connectivity file, the record of the alignment file.
\<close>

fun staging_loop ::
  "env \<Rightarrow> strike \<Rightarrow> string list \<Rightarrow> string list \<Rightarrow> string list \<Rightarrow> nat list \<Rightarrow> world
    \<Rightarrow> (py_error + unit) \<times> world" where
  "staging_loop ev self align_sequences sequences_id chains' [] w = (Inr (), w)"
| "staging_loop ev self align_sequences sequences_id chains' (i # rest) w =
     (case py_index sequences_id i of
        Inl e \<Rightarrow> (Inl e, w)
      | Inr sid \<Rightarrow>
          (case get_pdb ev sid w of
             (Inl e, w1) \<Rightarrow> (Inl e, w1)
           | (Inr pdb, w1) \<Rightarrow>
               (case py_index chains' i of
                  Inl e \<Rightarrow> (Inl e, w1)
                | Inr chain_i \<Rightarrow>
                    (let w2 = write_file w1 (out_connection_path self)
                                (sid @ '' '' @ abspath (cwd w1) ''strike'' @ ''/'' @ sid
                                   @ ''.pdb '' @ chain_i @ [CHR 0x0A])
                     in case py_index align_sequences i of
                          Inl e \<Rightarrow> (Inl e, w2)
                        | Inr s \<Rightarrow>
                            staging_loop ev self align_sequences sequences_id chains' rest
                              (write_file w2 (out_alignment_path self)
                                 (''>'' @ sid @ [CHR 0x0A] @ s @ [CHR 0x0A]))))))"

definition run_strike :: "env \<Rightarrow> strike \<Rightarrow> world \<Rightarrow> py_error + real" where
  "run_strike ev self w =
     StrikeEx_run ev w (abspath (cwd w) (exe_path self))
       (out_connection_path self) (out_alignment_path self)"

definition Strike_evaluate ::
  "env \<Rightarrow> strike \<Rightarrow> string list \<Rightarrow> string list \<Rightarrow> string list \<Rightarrow> world
    \<Rightarrow> (py_error + real) \<times> world" where
  "Strike_evaluate ev self align_sequences sequences_id chains' w =
     (let w1 = makedirs w ''strike''
      in if \<not> is_file w1 (out_connection_path self) \<and> \<not> is_file w1 (out_alignment_path self)
         then
           (case open_w w1 (out_connection_path self) of
              Inl e \<Rightarrow> (Inl e, w1)
            | Inr w2 \<Rightarrow>
                (case open_w w2 (out_alignment_path self) of
                   Inl e \<Rightarrow> (Inl e, w2)
                 | Inr w3 \<Rightarrow>
                     (case staging_loop ev self align_sequences sequences_id chains'
                             [0..<length align_sequences] w3 of
                        (Inl e, w4) \<Rightarrow> (Inl e, w4)
                      | (Inr u, w4) \<Rightarrow> (run_strike ev self w4, w4))))
         else (run_strike ev self w1, w1))"

definition Strike_compute ::
  "env \<Rightarrow> strike \<Rightarrow> string list \<Rightarrow> string list \<Rightarrow> string list \<Rightarrow> world
    \<Rightarrow> (py_error + real) \<times> world" where
  "Strike_compute ev self aligned_sequences sequences_id chains' w =
     Strike_evaluate ev self aligned_sequences sequences_id chains' w"



text \<open>
  \<open>keeps w w'\<close>: the working directory is the same and every file of \<open>w\<close> is still a
  file of \<open>w'\<close>.
\<close>

definition keeps :: "world \<Rightarrow> world \<Rightarrow> bool" where
  "keeps w w' = (cwd w' = cwd w \<and> (\<forall>p. files w p \<noteq> None \<longrightarrow> files w' p \<noteq> None))"

section \<open>Dictionaries in insertion order\<close>

text \<open>The distinct elements of a list, each at the place of its first occurrence.\<close>

fun first_occurrences :: "'a list \<Rightarrow> 'a list" where
  "first_occurrences [] = []"
| "first_occurrences (x # xs) = x # filter (\<lambda>y. y \<noteq> x) (first_occurrences xs)"

section \<open>Alignments\<close>

text \<open>A valid alignment: a non-empty list of sequences of one length.\<close>

definition aligned :: "string list \<Rightarrow> bool" where
  "aligned sequences = (sequences \<noteq> [] \<and> (\<forall>s \<in> set sequences. length s = length (hd sequences)))"

text \<open>Column \<open>k\<close> of an alignment: the symbol at position \<open>k\<close> of each sequence.\<close>

definition column_of :: "string list \<Rightarrow> nat \<Rightarrow> string" where
  "column_of sequences k = map (\<lambda>s. s ! k) sequences"

text \<open>The share of the symbol \<open>c\<close> in a column, as a float.\<close>

definition frequency :: "float_ops \<Rightarrow> string \<Rightarrow> char \<Rightarrow> real" where
  "frequency fl column c = true_div fl (count_list column c) (length column)"

text \<open>
  The terms \<open>frequency * log frequency\<close> of the given symbols of a column, added up in
  floating point from the left.
\<close>

definition entropy_terms :: "float_ops \<Rightarrow> string \<Rightarrow> string \<Rightarrow> real" where
  "entropy_terms fl column symbols =
     foldl (\<lambda>h c. fadd fl h (fmul fl (frequency fl column c) (flog fl (frequency fl column c))))
       0 symbols"

text \<open>
  The entropy with one term per distinct symbol of each column, the symbols taken in
  the order of their first occurrence, and the columns added up from the left.
\<close>

definition entropy_per_distinct :: "float_ops \<Rightarrow> string list \<Rightarrow> real" where
  "entropy_per_distinct fl sequences =
     foldl (\<lambda>score k. fadd fl score
              (entropy_terms fl (column_of sequences k)
                 (first_occurrences (column_of sequences k))))
       0 [0..<length (hd sequences)]"

text \<open>
  The entropy with one term per symbol occurrence, as the specification words it.
\<close>

definition entropy_per_occurrence :: "float_ops \<Rightarrow> string list \<Rightarrow> real" where
  "entropy_per_occurrence fl sequences =
     foldl (\<lambda>score k. fadd fl score
              (entropy_terms fl (column_of sequences k) (column_of sequences k)))
       0 [0..<length (hd sequences)]"

text \<open>Every frequency that occurs in the alignment is a positive float.\<close>

definition frequencies_positive :: "float_ops \<Rightarrow> string list \<Rightarrow> bool" where
  "frequencies_positive fl sequences =
     (\<forall>k<length (hd sequences). \<forall>c \<in> set (column_of sequences k).
        0 < frequency fl (column_of sequences k) c)"

text \<open>
  A rounding that is off by at most one part in 32, with a logarithm that is negative
  below 1: all that the comparison of the two entropies needs.
\<close>

definition close_rounding :: "float_ops \<Rightarrow> bool" where
  "close_rounding fl =
     ((\<forall>x. \<bar>rnd fl x - x\<bar> \<le> \<bar>x\<bar> / 32) \<and> (\<forall>x. 0 < x \<and> x < 1 \<longrightarrow> flog fl x < 0))"

text \<open>
  The majority symbol as the specification words it: of the symbols with the largest
  count, the one that occurs first in the column.
\<close>

definition majority_symbol :: "'a list \<Rightarrow> 'a option" where
  "majority_symbol column =
     find (\<lambda>x. \<forall>y \<in> set column. count_list column y \<le> count_list column x) column"

text \<open>A lookup with \<open>distance(x, x) = M\<close> and \<open>distance(x, y) = 0\<close> for \<open>x \<noteq> y\<close>.\<close>

definition identity_matrix :: "int \<Rightarrow> char \<Rightarrow> char \<Rightarrow> int" where
  "identity_matrix M a b = (if a = b then M else 0)"

section \<open>Example worlds\<close>

text \<open>
  A world with no file and no staging directory, the same world with the staging
  directory, and collaborators for four outcomes of a request.
\<close>

definition fresh_world :: world where
  "fresh_world = \<lparr>cwd = ''/home'', dirs = {''/home''}, files = Map.empty, requests = []\<rparr>"


definition demo_strike :: strike where
  "demo_strike = Strike_init fresh_world ''/usr/local/bin/strike''"

definition online_env :: env where
  "online_env =
     \<lparr>urlopen = (\<lambda>url. Body ''ATOM''), unicode_escape = Inr,
      StrikeEx_run = (\<lambda>w exe con aln. Inr 1)\<rparr>"




section \<open>Facts about the column loop\<close>

lemma get_column_ok:
  "\<forall>s \<in> set sequences. k < length s \<Longrightarrow> get_column sequences k = Inr (column_of sequences k)"
  by (induction sequences) (simp_all add: column_of_def py_index_def)

lemma all_same_length_iff:
  "all_same_length sequences \<longleftrightarrow> (sequences = [] \<or> aligned sequences)"
  by (cases sequences) (auto simp add: aligned_def all_same_length_def list_all_iff)

lemma for_columns_ok:
  assumes "\<forall>s \<in> set sequences. n \<le> length s" and "\<forall>k \<in> set ks. k < n"
    and "\<And>k acc. k < n \<Longrightarrow> body (column_of sequences k) acc = Inr (f k acc)"
  shows "for_columns body sequences ks acc = Inr (foldl (\<lambda>a k. f k a) acc ks)"
  using assms(2)
proof (induction ks arbitrary: acc)
  case Nil
  then show ?case by simp
next
  case (Cons k ks)
  have "get_column sequences k = Inr (column_of sequences k)"
    using assms(1) Cons.prems by (intro get_column_ok) fastforce
  then show ?case using Cons assms(3) by simp
qed

lemma aligned_length: "aligned sequences \<Longrightarrow> s \<in> set sequences \<Longrightarrow> length s = length (hd sequences)"
  unfolding aligned_def by blast

lemma aligned_le: "aligned sequences \<Longrightarrow> \<forall>s \<in> set sequences. length (hd sequences) \<le> length s"
  unfolding aligned_def by (metis order_refl)

section \<open>Binary64 rounding\<close>

text \<open>
  The rounding is off by at most half a unit in the last place, and leaves the numbers
  it can represent as they are.
\<close>

lemma round_half_even_error: "\<bar>of_int (round_half_even y) - y\<bar> \<le> 1 / 2"
proof -
  have "of_int \<lfloor>y\<rfloor> \<le> y" and "y < of_int \<lfloor>y\<rfloor> + 1"
    by linarith+
  then show ?thesis
    unfolding round_half_even_def Let_def by (simp; linarith)
qed

lemma round_half_even_of_int: "round_half_even (of_int n) = n"
  by (simp add: round_half_even_def)

lemma binary64_0: "binary64 0 = 0"
  by (simp add: binary64_def)

lemma binary64_error:
  "\<bar>binary64 x - x\<bar> \<le> \<bar>x\<bar> / 2 ^ 53"
proof (cases "x = 0")
  case True
  then show ?thesis by (simp add: binary64_def)
next
  case False
  define e where "e = \<lfloor>log 2 \<bar>x\<bar>\<rfloor>"
  define ulp :: real where "ulp = 2 powr of_int (e - 52)"
  have pos: "0 < ulp"
    by (simp add: ulp_def)
  have "of_int e \<le> log 2 \<bar>x\<bar>"
    unfolding e_def by linarith
  then have "2 powr of_int e \<le> 2 powr log 2 \<bar>x\<bar>"
    by simp
  then have low: "2 powr of_int e \<le> \<bar>x\<bar>"
    using False by simp
  have "ulp = 2 powr of_int e * 2 powr (- 52)"
    unfolding ulp_def by (simp add: powr_diff powr_minus field_simps flip: powr_add)
  also have "(2::real) powr (- 52) = 1 / 2 ^ 52"
    by (simp add: powr_minus_divide)
  finally have ulp_eq: "ulp = 2 powr of_int e / 2 ^ 52"
    by simp
  have b: "binary64 x = of_int (round_half_even (x / ulp)) * ulp"
    using False by (simp add: binary64_def ulp_def e_def Let_def)
  have "binary64 x - x = (of_int (round_half_even (x / ulp)) - x / ulp) * ulp"
    using pos unfolding b by (simp add: field_simps)
  then have "\<bar>binary64 x - x\<bar> = \<bar>of_int (round_half_even (x / ulp)) - x / ulp\<bar> * \<bar>ulp\<bar>"
    by (simp only: abs_mult)
  also have "\<bar>ulp\<bar> = ulp"
    using pos by simp
  also have "\<bar>of_int (round_half_even (x / ulp)) - x / ulp\<bar> * ulp \<le> 1 / 2 * ulp"
    using pos by (intro mult_right_mono round_half_even_error) simp
  also have "\<dots> = 2 powr of_int e / 2 ^ 53"
    unfolding ulp_eq by simp
  also have "\<dots> \<le> \<bar>x\<bar> / 2 ^ 53"
    using low by (simp add: divide_right_mono)
  finally show ?thesis .
qed

lemma binary64_exact:
  assumes "2 powr of_int e \<le> \<bar>x\<bar>" and "\<bar>x\<bar> < 2 powr of_int (e + 1)"
    and "x / 2 powr of_int (e - 52) = of_int n"
  shows "binary64 x = x"
proof -
  have nz: "x \<noteq> 0"
    using assms(1) by (auto simp: not_le [symmetric] dest: order_trans [rotated])
  have "\<lfloor>log 2 \<bar>x\<bar>\<rfloor> = e"
    using nz assms(1,2) by (subst floor_log_eq_powr_iff) (simp_all add: add.commute)
  then have "binary64 x = of_int (round_half_even (x / 2 powr of_int (e - 52))) * 2 powr of_int (e - 52)"
    using nz by (simp add: binary64_def Let_def)
  also have "\<dots> = x / 2 powr of_int (e - 52) * 2 powr of_int (e - 52)"
    by (simp only: assms(3) round_half_even_of_int)
  also have "\<dots> = x"
    by simp
  finally show ?thesis .
qed

lemma binary64_1: "binary64 1 = 1"
  by (rule binary64_exact [where e = 0 and n = "2 ^ 52"]) (simp_all add: powr_minus_divide)

lemma binary64_half: "binary64 (1 / 2) = 1 / 2"
  by (rule binary64_exact [where e = "- 1" and n = "2 ^ 52"]) (simp_all add: powr_minus_divide)

lemma binary64_50: "binary64 50 = 50"
  by (rule binary64_exact [where e = 5 and n = "50 * 2 ^ 47"]) (simp_all add: powr_minus_divide)

lemma binary64_100: "binary64 100 = 100"
  by (rule binary64_exact [where e = 6 and n = "100 * 2 ^ 46"]) (simp_all add: powr_minus_divide)

lemma round_half_even_near:
  assumes "\<bar>y - of_int n\<bar> < 1 / 2"
  shows "round_half_even y = n"
proof (cases "of_int n \<le> y")
  case True
  then have "\<lfloor>y\<rfloor> = n"
    using assms by (intro floor_unique) linarith+
  then show ?thesis
    using assms True by (simp add: round_half_even_def)
next
  case False
  then have f: "\<lfloor>y\<rfloor> = n - 1"
    using assms by (intro floor_unique; simp; linarith)
  have "1 / 2 < y - of_int (n - 1)"
    using assms False by simp
  then show ?thesis
    unfolding round_half_even_def f Let_def by simp
qed

lemma binary64_value:
  assumes "2 powr of_int e \<le> \<bar>x\<bar>" and "\<bar>x\<bar> < 2 powr of_int (e + 1)"
    and "\<bar>x / 2 powr of_int (e - 52) - of_int n\<bar> < 1 / 2"
  shows "binary64 x = of_int n * 2 powr of_int (e - 52)"
proof -
  have nz: "x \<noteq> 0"
    using assms(1) by (auto simp: not_le [symmetric] dest: order_trans [rotated])
  have "\<lfloor>log 2 \<bar>x\<bar>\<rfloor> = e"
    using nz assms(1,2) by (subst floor_log_eq_powr_iff) (simp_all add: add.commute)
  then have "binary64 x
      = of_int (round_half_even (x / 2 powr of_int (e - 52))) * 2 powr of_int (e - 52)"
    using nz by (simp add: binary64_def Let_def)
  then show ?thesis
    by (simp only: round_half_even_near [OF assms(3)])
qed

text \<open>
  Three roundings whose results Python prints as \<open>0.3333333333333333\<close>,
  \<open>33.33333333333333\<close> and \<open>66.66666666666667\<close>.
\<close>

lemma binary64_third: "binary64 (1 / 3) = 6004799503160661 / 2 ^ 54"
  using binary64_value [where x = "1 / 3" and e = "- 2" and n = 6004799503160661]
  by (simp add: powr_minus_divide)

lemma binary64_third_times_100:
  "binary64 (6004799503160661 / 2 ^ 54 * 100) = 2345624805922133 / 2 ^ 46"
  using binary64_value [where x = "6004799503160661 / 2 ^ 54 * 100" and e = 5
      and n = 4691249611844266]
  by (simp add: powr_minus_divide)

lemma binary64_100_minus:
  "binary64 (100 - 2345624805922133 / 2 ^ 46) = 4691249611844267 / 2 ^ 46"
  using binary64_value [where x = "100 - 2345624805922133 / 2 ^ 46" and e = 6
      and n = 4691249611844267]
  by (simp add: powr_minus_divide)

lemma binary64_neg:
  assumes "x < 0"
  shows "binary64 x < 0"
proof -
  have "\<bar>binary64 x - x\<bar> \<le> \<bar>x\<bar> / 2 ^ 53"
    by (rule binary64_error)
  then show ?thesis
    using assms by (simp add: abs_if split: if_splits) 
qed

lemma close_rounding_binary64: "close_rounding binary64_ops"
proof -
  have "\<bar>binary64 x - x\<bar> \<le> \<bar>x\<bar> / 32" for x
  proof -
    have "\<bar>binary64 x - x\<bar> \<le> \<bar>x\<bar> / 2 ^ 53"
      by (rule binary64_error)
    also have "\<dots> \<le> \<bar>x\<bar> / 32"
      by (intro divide_left_mono) simp_all
    finally show ?thesis .
  qed
  moreover have "binary64 (ln x) < 0" if "0 < x" and "x < 1" for x
    using that by (intro binary64_neg ln_less_zero)
  ultimately show ?thesis
    by (simp add: close_rounding_def binary64_ops_def)
qed

lemma rnd_binary64_ops: "rnd binary64_ops = binary64"
  by (simp add: binary64_ops_def)

lemma binary64_pos:
  assumes "0 < x"
  shows "0 < binary64 x"
proof -
  have "\<bar>binary64 x - x\<bar> \<le> \<bar>x\<bar> / 2 ^ 53"
    by (rule binary64_error)
  then show ?thesis
    using assms by (simp add: abs_if split: if_splits)
qed

section \<open>Validation\<close>

text \<open>
  C2.  For the five metrics derived from \<open>Score\<close>, and for any \<open>evaluate\<close> whatever it
  would do, \<open>compute\<close> on a non-empty list with a sequence whose length differs from the
  first raises the alignment error, without evaluating.  \<open>Strike.compute\<close> is not the
  inherited method: it is \<open>Strike.evaluate\<close>, with no check before it.
\<close>

theorem compute_rejects_unequal_lengths:
  assumes "sequences \<noteq> []" and "\<exists>s \<in> set sequences. length s \<noteq> length (hd sequences)"
  shows "compute evaluate sequences = Inl AlignmentLengthMismatch
       \<and> compute (Entropy_evaluate fl) sequences = Inl AlignmentLengthMismatch
       \<and> compute (Star_evaluate d) sequences = Inl AlignmentLengthMismatch
       \<and> compute (SumOfPairs_evaluate d) sequences = Inl AlignmentLengthMismatch
       \<and> compute (PercentageOfNonGaps_evaluate fl) sequences = Inl AlignmentLengthMismatch
       \<and> compute (PercentageOfTotallyConservedColumns_evaluate fl) sequences
           = Inl AlignmentLengthMismatch
       \<and> Strike_compute ev self sequences sequences_id chains' w
           = Strike_evaluate ev self sequences sequences_id chains' w"
proof -
  have "\<not> aligned sequences"
    using assms(2) unfolding aligned_def by blast
  with assms(1) have "\<not> all_same_length sequences"
    by (simp only: all_same_length_iff simp_thms)
  then show ?thesis
    by (simp only: compute_def Strike_compute_def if_True simp_thms)
qed

theorem compute_rejects_unequal_lengths_witness:
  "[''A'', ''AB''] \<noteq> []
   \<and> (\<exists>s \<in> set [''A'', ''AB'']. length s \<noteq> length (hd [''A'', ''AB'']))
   \<and> compute (Entropy_evaluate binary64_ops) [''A'', ''AB''] = Inl AlignmentLengthMismatch
   \<and> compute (Star_evaluate (identity_matrix 5)) [''A'', ''AB''] = Inl AlignmentLengthMismatch"
proof -
  have n: "[''A'', ''AB''] \<noteq> []"
    and u: "\<exists>s \<in> set [''A'', ''AB'']. length s \<noteq> length (hd [''A'', ''AB''])"
    by simp_all
  from compute_rejects_unequal_lengths
      [OF n u, where fl = binary64_ops and d = "identity_matrix 5"] n u
  show ?thesis by blast
qed

text \<open>
  The alignment error is not raised by \<open>Strike\<close>: its \<open>compute\<close> hands the sequences to
  \<open>evaluate\<close> unchecked, so sequences of lengths 1 and 2 are staged and scored.
\<close>

theorem strike_compute_does_not_validate:
  "fst (Strike_compute online_env demo_strike
         [''A'', ''AB''] [''1abc'', ''2xyz''] [''A'', ''B''] fresh_world) = Inr 1
   \<and> fst (Strike_compute online_env demo_strike
         [''A'', ''AB''] [''1abc'', ''2xyz''] [''A'', ''B''] fresh_world)
       \<noteq> Inl AlignmentLengthMismatch"
  by (simp add: Strike_compute_def Strike_evaluate_def demo_strike_def Strike_init_def
      fresh_world_def online_env_def makedirs_def is_file_def abspath_def open_w_def
      can_open_def dirname_def write_file_def get_pdb_def py_index_def run_strike_def
      upt_rec Let_def)

text \<open>
  C9.  On the empty list the length check of \<open>compute\<close> holds vacuously, so no metric
  derived from \<open>Score\<close> raises the alignment error; each one then fails in \<open>evaluate\<close>
  with an \<open>IndexError\<close> at \<open>sequences[0]\<close>.
\<close>

theorem compute_empty_list:
  "all_same_length []
   \<and> compute (Entropy_evaluate fl) [] = Inl IndexError
   \<and> compute (Star_evaluate d) [] = Inl IndexError
   \<and> compute (SumOfPairs_evaluate d) [] = Inl IndexError
   \<and> compute (PercentageOfNonGaps_evaluate fl) [] = Inl IndexError
   \<and> compute (PercentageOfTotallyConservedColumns_evaluate fl) [] = Inl IndexError"
  by (simp add: compute_def all_same_length_def Entropy_evaluate_def Star_evaluate_def
      SumOfPairs_evaluate_def PercentageOfNonGaps_evaluate_def
      PercentageOfTotallyConservedColumns_evaluate_def py_index_def)

text \<open>
  C10.  A non-empty list of empty sequences passes the length check, and both percentage
  metrics then divide by zero: the total number of positions, and the number of columns,
  is 0.
\<close>

theorem percentages_divide_by_zero:
  assumes "sequences \<noteq> []" and "\<forall>s \<in> set sequences. s = []"
  shows "all_same_length sequences
       \<and> PercentageOfNonGaps_evaluate fl sequences = Inl ZeroDivisionError
       \<and> PercentageOfTotallyConservedColumns_evaluate fl sequences = Inl ZeroDivisionError
       \<and> compute (PercentageOfNonGaps_evaluate fl) sequences = Inl ZeroDivisionError
       \<and> compute (PercentageOfTotallyConservedColumns_evaluate fl) sequences = Inl ZeroDivisionError"
proof -
  obtain s ss where [simp]: "sequences = s # ss"
    using assms(1) by (cases sequences) auto
  have [simp]: "s = []"
    using assms(2) by simp
  have a: "PercentageOfNonGaps_evaluate fl sequences = Inl ZeroDivisionError"
    by (simp add: PercentageOfNonGaps_evaluate_def py_index_def py_truediv_def)
  have b: "PercentageOfTotallyConservedColumns_evaluate fl sequences = Inl ZeroDivisionError"
    by (simp add: PercentageOfTotallyConservedColumns_evaluate_def py_index_def py_truediv_def)
  have c: "all_same_length sequences"
    using assms(2) by (simp add: all_same_length_def list_all_iff)
  show ?thesis
    using a b c by (simp add: compute_def)
qed

theorem percentages_divide_by_zero_witness:
  "[[], []] \<noteq> ([] :: string list)
   \<and> compute (PercentageOfNonGaps_evaluate binary64_ops) [[], []] = Inl ZeroDivisionError
   \<and> compute (PercentageOfTotallyConservedColumns_evaluate binary64_ops) [[], []]
       = Inl ZeroDivisionError"
  using percentages_divide_by_zero [where sequences = "[[], []]" and fl = binary64_ops]
  by simp

section \<open>Percentages\<close>

lemma count_gaps_sum: "count_gaps sequences g = g + (\<Sum>s \<leftarrow> sequences. count_list s (CHR ''-''))"
  by (induction sequences arbitrary: g) simp_all

lemma count_list_none: "c \<notin> set s \<Longrightarrow> count_list s c = 0"
  by (induction s) auto

lemma count_list_all: "set s \<subseteq> {c} \<Longrightarrow> count_list s c = length s"
  by (induction s) auto

lemma sum_list_const: "(\<forall>x \<in> set xs. f x = (c::nat)) \<Longrightarrow> sum_list (map f xs) = length xs * c"
  by (induction xs) auto

lemma foldl_count_if: "foldl (\<lambda>a k. if P k then a + 1 else a) (acc::nat) ks = acc + length (filter P ks)"
  by (induction ks arbitrary: acc) auto

text \<open>
  C5.  For a non-empty alignment of non-empty sequences of one length,
  \<open>PercentageOfNonGaps.evaluate\<close> returns
  \<open>100 - totalGaps / (sequenceLength * numberOfSequences) * 100\<close>, computed in floating
  point, where \<open>totalGaps\<close> counts the \<open>-\<close> symbols of all sequences.  As the rounding
  leaves 0, 1 and 100 as they are, the result is exactly 100 without any gap and exactly
  0 with nothing but gaps; \<open>is_minimization\<close> is true.
\<close>

theorem percentage_of_non_gaps_formula:
  assumes "aligned sequences" and "0 < length (hd sequences)"
  shows "PercentageOfNonGaps_evaluate fl sequences =
           Inr (fsub fl 100
                  (fmul fl
                     (true_div fl (\<Sum>s \<leftarrow> sequences. count_list s (CHR ''-''))
                        (length (hd sequences) * length sequences))
                     100))
       \<and> (rnd fl 0 = 0 \<and> rnd fl 100 = 100 \<longrightarrow>
            (\<forall>s \<in> set sequences. CHR ''-'' \<notin> set s) \<longrightarrow>
            PercentageOfNonGaps_evaluate fl sequences = Inr 100)
       \<and> (rnd fl 0 = 0 \<and> rnd fl 1 = 1 \<and> rnd fl 100 = 100 \<longrightarrow>
            (\<forall>s \<in> set sequences. set s \<subseteq> {CHR ''-''}) \<longrightarrow>
            PercentageOfNonGaps_evaluate fl sequences = Inr 0)
       \<and> PercentageOfNonGaps_is_minimization"
proof -
  let ?G = "\<Sum>s \<leftarrow> sequences. count_list s (CHR ''-'')"
  let ?T = "length (hd sequences) * length sequences"
  obtain s ss where seq: "sequences = s # ss"
    using assms(1) by (cases sequences) (auto simp: aligned_def)
  have pos: "?T \<noteq> 0"
    using assms(2) seq by simp
  have main: "PercentageOfNonGaps_evaluate fl sequences
      = Inr (fsub fl 100 (fmul fl (true_div fl ?G ?T) 100))"
    using pos unfolding PercentageOfNonGaps_evaluate_def
    by (simp add: seq py_index_def py_truediv_def count_gaps_sum Let_def)
  have a: "PercentageOfNonGaps_evaluate fl sequences = Inr 100"
    if r: "rnd fl 0 = 0 \<and> rnd fl 100 = 100" and "\<forall>s \<in> set sequences. CHR ''-'' \<notin> set s"
  proof -
    have g: "?G = 0"
      using that(2) by (simp add: count_list_none)
    have "true_div fl ?G ?T = 0"
      unfolding g true_div_def using r by simp
    then have "fsub fl 100 (fmul fl (true_div fl ?G ?T) 100) = 100"
      using r by (simp add: fsub_def fmul_def)
    then show ?thesis
      by (simp only: main)
  qed
  have b: "PercentageOfNonGaps_evaluate fl sequences = Inr 0"
    if r: "rnd fl 0 = 0 \<and> rnd fl 1 = 1 \<and> rnd fl 100 = 100"
      and "\<forall>s \<in> set sequences. set s \<subseteq> {CHR ''-''}"
  proof -
    have "\<forall>x \<in> set sequences. count_list x (CHR ''-'') = length (hd sequences)"
    proof
      fix x assume x: "x \<in> set sequences"
      then have "count_list x (CHR ''-'') = length x"
        using that(2) by (intro count_list_all) blast
      with x assms(1) show "count_list x (CHR ''-'') = length (hd sequences)"
        by (simp only: aligned_length)
    qed
    then have "?G = length sequences * length (hd sequences)"
      by (rule sum_list_const)
    then have "?G = ?T"
      by (simp only: mult.commute)
    moreover have "real ?T \<noteq> 0"
      using pos by (simp only: of_nat_eq_0_iff not_False_eq_True)
    ultimately have "real ?G / real ?T = 1"
      by (metis divide_self)
    then have "true_div fl ?G ?T = 1"
      using r by (simp only: true_div_def)
    then have "fsub fl 100 (fmul fl (true_div fl ?G ?T) 100) = 0"
      using r by (simp add: fsub_def fmul_def)
    then show ?thesis
      by (simp only: main)
  qed
  have c: "PercentageOfNonGaps_is_minimization"
    by (simp add: PercentageOfNonGaps_is_minimization_def)
  from main a b c show ?thesis
    by blast
qed

text \<open>
  One in three, in percent, and what is left of 100: the values Python prints as
  \<open>33.33333333333333\<close> and \<open>66.66666666666667\<close>.
\<close>

lemma one_third_percent:
  "fmul binary64_ops (true_div binary64_ops 1 3) 100 = 2345624805922133 / 2 ^ 46"
proof -
  have "true_div binary64_ops 1 3 = 6004799503160661 / 2 ^ 54"
    using binary64_third by (simp add: true_div_def rnd_binary64_ops)
  then show ?thesis
    using binary64_third_times_100 by (simp only: fmul_def rnd_binary64_ops)
qed

lemma two_thirds_percent:
  "fsub binary64_ops 100 (fmul binary64_ops (true_div binary64_ops 1 3) 100)
     = 4691249611844267 / 2 ^ 46"
  using binary64_100_minus by (simp only: one_third_percent fsub_def rnd_binary64_ops)

text \<open>One gap in three positions.\<close>

lemma PercentageOfNonGaps_example:
  "PercentageOfNonGaps_evaluate binary64_ops [''A-A''] = Inr (4691249611844267 / 2 ^ 46)"
proof -
  note two_thirds_percent
  moreover have "PercentageOfNonGaps_evaluate binary64_ops [''A-A'']
      = Inr (fsub binary64_ops 100 (fmul binary64_ops (true_div binary64_ops 1 3) 100))"
    by (simp add: PercentageOfNonGaps_evaluate_def py_index_def py_truediv_def
        numeral_3_eq_3)
  ultimately show ?thesis
    by (simp only:)
qed

theorem percentage_of_non_gaps_formula_witness:
  "aligned [''A-A''] \<and> 0 < length (hd [''A-A''])
   \<and> PercentageOfNonGaps_evaluate binary64_ops [''A-A''] = Inr (4691249611844267 / 2 ^ 46)
   \<and> rnd binary64_ops 0 = 0 \<and> rnd binary64_ops 1 = 1 \<and> rnd binary64_ops 100 = 100
   \<and> aligned [''AC'', ''GT''] \<and> 0 < length (hd [''AC'', ''GT''])
   \<and> PercentageOfNonGaps_evaluate binary64_ops [''AC'', ''GT''] = Inr 100
   \<and> aligned [''--'', ''--''] \<and> 0 < length (hd [''--'', ''--''])
   \<and> PercentageOfNonGaps_evaluate binary64_ops [''--'', ''--''] = Inr 0"
proof -
  have a1: "aligned [''A-A'']" and a2: "aligned [''AC'', ''GT'']"
    and a3: "aligned [''--'', ''--'']"
    by (simp_all add: aligned_def)
  have l1: "0 < length (hd [''A-A''])" and l2: "0 < length (hd [''AC'', ''GT''])"
    and l3: "0 < length (hd [''--'', ''--''])"
    by simp_all
  have r: "rnd binary64_ops 0 = 0 \<and> rnd binary64_ops 1 = 1 \<and> rnd binary64_ops 100 = 100"
    by (simp add: rnd_binary64_ops binary64_0 binary64_1 binary64_100)
  have g2: "\<forall>s \<in> set [''AC'', ''GT'']. CHR ''-'' \<notin> set s"
    and g3: "\<forall>s \<in> set [''--'', ''--'']. set s \<subseteq> {CHR ''-''}"
    by simp_all
  have "(\<Sum>s \<leftarrow> [''A-A'']. count_list s (CHR ''-'')) = 1"
    and "length (hd [''A-A'']) * length [''A-A''] = 3"
    by simp_all
  moreover note two_thirds_percent
  moreover from percentage_of_non_gaps_formula [OF a1 l1, where fl = binary64_ops]
  have "PercentageOfNonGaps_evaluate binary64_ops [''A-A'']
      = Inr (fsub binary64_ops 100
               (fmul binary64_ops
                  (true_div binary64_ops (\<Sum>s \<leftarrow> [''A-A'']. count_list s (CHR ''-''))
                     (length (hd [''A-A'']) * length [''A-A'']))
                  100))"
    by blast
  ultimately have v1: "PercentageOfNonGaps_evaluate binary64_ops [''A-A'']
      = Inr (4691249611844267 / 2 ^ 46)"
    by (simp only:)
  from percentage_of_non_gaps_formula [OF a2 l2, where fl = binary64_ops] r g2
  have v2: "PercentageOfNonGaps_evaluate binary64_ops [''AC'', ''GT''] = Inr 100"
    by blast
  from percentage_of_non_gaps_formula [OF a3 l3, where fl = binary64_ops] r g3
  have v3: "PercentageOfNonGaps_evaluate binary64_ops [''--'', ''--''] = Inr 0"
    by blast
  from a1 l1 v1 r a2 l2 v2 a3 l3 v3 show ?thesis
    by blast
qed

text \<open>
  C6.  For a non-empty alignment of non-empty sequences of one length,
  \<open>PercentageOfTotallyConservedColumns.evaluate\<close> returns
  \<open>conservedColumns / totalColumns * 100\<close>, computed in floating point, where a column
  is conserved exactly when the set of its symbols has at most one element.  As the
  rounding leaves 1/2, 1, 50 and 100 as they are, a single sequence gives exactly 100
  and \<open>["AC", "AC", "AG"]\<close> gives exactly 50.
\<close>

theorem conserved_columns_formula:
  assumes "aligned sequences" and "0 < length (hd sequences)"
  shows "PercentageOfTotallyConservedColumns_evaluate fl sequences =
           Inr (fmul fl
                  (true_div fl
                     (card {k. k < length (hd sequences) \<and> card (set (column_of sequences k)) \<le> 1})
                     (length (hd sequences)))
                  100)
       \<and> (rnd fl 1 = 1 \<and> rnd fl 100 = 100 \<longrightarrow> length sequences = 1 \<longrightarrow>
            PercentageOfTotallyConservedColumns_evaluate fl sequences = Inr 100)
       \<and> (rnd fl (1 / 2) = 1 / 2 \<and> rnd fl 50 = 50 \<longrightarrow>
            PercentageOfTotallyConservedColumns_evaluate fl [''AC'', ''AC'', ''AG''] = Inr 50)"
proof -
  obtain s ss where seq: "sequences = s # ss"
    using assms(1) by (cases sequences) (auto simp: aligned_def)
  let ?L = "length (hd sequences)"
  let ?P = "\<lambda>k. card (set (column_of sequences k)) \<le> 1"
  have len: "\<forall>s \<in> set sequences. ?L \<le> length s"
    using assms(1) by (rule aligned_le)
  have loop: "for_columns
       (\<lambda>column no. Inr (if card (set column) \<le> 1 then no + 1 else no))
       sequences [0..<?L] (0::nat) = Inr (length (filter ?P [0..<?L]))"
    using for_columns_ok[where n="?L" and ks="[0..<?L]" and sequences=sequences and acc="0::nat"
        and body="\<lambda>column no. Inr (if card (set column) \<le> 1 then no + 1 else no)"
        and f="\<lambda>k a. if ?P k then a + 1 else a", OF len]
    by (simp add: foldl_count_if)
  have card: "length (filter ?P [0..<?L]) = card {k. k < ?L \<and> ?P k}"
  proof -
    have "length (filter ?P [0..<?L]) = card (set (filter ?P [0..<?L]))"
      by (metis distinct_card distinct_filter distinct_upt)
    also have "set (filter ?P [0..<?L]) = {k. k < ?L \<and> ?P k}" by auto
    finally show ?thesis .
  qed
  have main: "PercentageOfTotallyConservedColumns_evaluate fl sequences =
           Inr (fmul fl (true_div fl (card {k. k < ?L \<and> ?P k}) ?L) 100)"
    using assms(2) loop card unfolding PercentageOfTotallyConservedColumns_evaluate_def
    by (simp add: seq py_index_def py_truediv_def Let_def)
  have single: "PercentageOfTotallyConservedColumns_evaluate fl sequences = Inr 100"
    if r: "rnd fl 1 = 1 \<and> rnd fl 100 = 100" and "length sequences = 1"
  proof -
    have "ss = []" using that(2) seq by simp
    then have "\<And>k. ?P k" by (simp add: seq column_of_def)
    then have "{k. k < ?L \<and> ?P k} = {..<?L}" by auto
    then have "fmul fl (true_div fl (card {k. k < ?L \<and> ?P k}) ?L) 100 = 100"
      using assms(2) r by (simp add: fmul_def true_div_def)
    then show ?thesis
      by (simp only: main)
  qed
  have ex: "PercentageOfTotallyConservedColumns_evaluate fl [''AC'', ''AC'', ''AG''] = Inr 50"
    if r: "rnd fl (1 / 2) = 1 / 2 \<and> rnd fl 50 = 50"
  proof -
    have "true_div fl 1 2 = 1 / 2"
      using r by (simp only: true_div_def of_nat_1 of_nat_numeral)
    moreover have "(1 / 2 * 100 :: real) = 50"
      by simp
    ultimately have "fmul fl (true_div fl 1 2) 100 = 50"
      using r by (simp only: fmul_def)
    moreover have "PercentageOfTotallyConservedColumns_evaluate fl [''AC'', ''AC'', ''AG'']
        = Inr (fmul fl (true_div fl 1 2) 100)"
      by (simp add: PercentageOfTotallyConservedColumns_evaluate_def py_index_def
          py_truediv_def upt_rec numeral_2_eq_2)
    ultimately show ?thesis
      by (simp only:)
  qed
  from main single ex show ?thesis
    by blast
qed

text \<open>One conserved column of three.\<close>

lemma ConservedColumns_example:
  "PercentageOfTotallyConservedColumns_evaluate binary64_ops [''ACG'', ''AGC'']
     = Inr (2345624805922133 / 2 ^ 46)"
proof -
  note one_third_percent
  moreover have "PercentageOfTotallyConservedColumns_evaluate binary64_ops [''ACG'', ''AGC'']
      = Inr (fmul binary64_ops (true_div binary64_ops 1 3) 100)"
    by (simp add: PercentageOfTotallyConservedColumns_evaluate_def py_index_def py_truediv_def
        upt_rec numeral_3_eq_3)
  ultimately show ?thesis
    by (simp only:)
qed

theorem conserved_columns_formula_witness:
  "aligned [''AC'', ''AC'', ''AG''] \<and> 0 < length (hd [''AC'', ''AC'', ''AG''])
   \<and> rnd binary64_ops (1 / 2) = 1 / 2 \<and> rnd binary64_ops 50 = 50
   \<and> PercentageOfTotallyConservedColumns_evaluate binary64_ops [''AC'', ''AC'', ''AG'']
       = Inr 50
   \<and> aligned [''ACGT''] \<and> 0 < length (hd [''ACGT'']) \<and> length [''ACGT''] = 1
   \<and> rnd binary64_ops 1 = 1 \<and> rnd binary64_ops 100 = 100
   \<and> PercentageOfTotallyConservedColumns_evaluate binary64_ops [''ACGT''] = Inr 100"
proof -
  have a1: "aligned [''AC'', ''AC'', ''AG'']" and a2: "aligned [''ACGT'']"
    by (simp_all add: aligned_def)
  have l1: "0 < length (hd [''AC'', ''AC'', ''AG''])" and l2: "0 < length (hd [''ACGT''])"
    by simp_all
  have s2: "length [''ACGT''] = 1"
    by simp
  have r1: "rnd binary64_ops (1 / 2) = 1 / 2 \<and> rnd binary64_ops 50 = 50"
    by (simp add: rnd_binary64_ops binary64_half binary64_50)
  have r2: "rnd binary64_ops 1 = 1 \<and> rnd binary64_ops 100 = 100"
    by (simp add: rnd_binary64_ops binary64_1 binary64_100)
  from conserved_columns_formula [OF a1 l1, where fl = binary64_ops] r1
  have v1: "PercentageOfTotallyConservedColumns_evaluate binary64_ops [''AC'', ''AC'', ''AG'']
      = Inr 50"
    by blast
  from conserved_columns_formula [OF a2 l2, where fl = binary64_ops] r2 s2
  have v2: "PercentageOfTotallyConservedColumns_evaluate binary64_ops [''ACGT''] = Inr 100"
    by blast
  from a1 l1 r1 v1 a2 l2 s2 r2 v2 show ?thesis
    by blast
qed

section \<open>SumOfPairs: every pair once\<close>

lemma foldl_add_sum:
  fixes g :: "nat \<Rightarrow> 'a::comm_monoid_add"
  shows "foldl (\<lambda>a k. a + g k) acc ks = acc + sum_list (map g ks)"
  by (induction ks arbitrary: acc) (simp_all add: add.assoc)

lemma foldl_add_upt:
  fixes g :: "nat \<Rightarrow> 'a::comm_monoid_add"
  shows "foldl (\<lambda>a k. a + g k) 0 [0..<L] = (\<Sum>k<L. g k)"
  by (simp add: foldl_add_sum interv_sum_list_conv_sum_set_nat atLeast0LessThan)

lemma score_pairs_sum:
  "score_pairs d ps acc = acc + (\<Sum>p \<leftarrow> ps. d (fst p) (snd p))"
  by (induction ps arbitrary: acc) (simp_all add: get_score_of_two_chars_def)

lemma sum_list_nth_upt: "(\<Sum>y \<leftarrow> xs. (f y :: int)) = (\<Sum>j = 0..<length xs. f (xs ! j))"
  using sum_list_sum_nth [of "map f xs"] by simp

lemma sum_possible_combinations:
  "(\<Sum>p \<leftarrow> possible_combinations xs. (f (fst p) (snd p) :: int))
     = (\<Sum>i<length xs. \<Sum>j = Suc i..<length xs. f (xs ! i) (xs ! j))"
proof (induction xs)
  case Nil
  show ?case by simp
next
  case (Cons x xs)
  have "(\<Sum>p \<leftarrow> possible_combinations (x # xs). f (fst p) (snd p))
      = (\<Sum>y \<leftarrow> xs. f x y) + (\<Sum>p \<leftarrow> possible_combinations xs. f (fst p) (snd p))"
    by (simp add: comp_def)
  also have "(\<Sum>y \<leftarrow> xs. f x y) = (\<Sum>j = 0..<length xs. f x (xs ! j))"
    by (rule sum_list_nth_upt)
  also have "\<dots> = (\<Sum>j = Suc 0..<length (x # xs). f ((x # xs) ! 0) ((x # xs) ! j))"
    by (simp only: length_Cons sum.shift_bounds_Suc_ivl nth_Cons_0 nth_Cons_Suc)
  also have "(\<Sum>p \<leftarrow> possible_combinations xs. f (fst p) (snd p))
      = (\<Sum>i<length xs. \<Sum>j = Suc (Suc i)..<length (x # xs). f ((x # xs) ! Suc i) ((x # xs) ! j))"
    by (simp only: Cons.IH length_Cons sum.shift_bounds_Suc_ivl nth_Cons_Suc)
  finally show ?case
    by (simp only: length_Cons sum.lessThan_Suc_shift)
qed

lemma length_possible_combinations:
  "length (possible_combinations xs) = length xs choose 2"
  by (induction xs) (simp_all add: numeral_2_eq_2)

lemma set_possible_combinations:
  "set (possible_combinations xs) \<subseteq> set xs \<times> set xs"
  by (induction xs) auto

lemma sum_list_const_int: "(\<forall>x \<in> set xs. f x = (c::int)) \<Longrightarrow> sum_list (map f xs) = int (length xs) * c"
  by (induction xs) (auto simp: algebra_simps)

lemma SumOfPairs_column_conserved:
  assumes "\<forall>y \<in> set column. y = c"
  shows "SumOfPairs_get_score_of_k_column (identity_matrix M) column
           = int (length column choose 2) * M"
proof -
  have "identity_matrix M (fst p) (snd p) = M" if "p \<in> set (possible_combinations column)" for p
  proof -
    from that set_possible_combinations have "p \<in> set column \<times> set column"
      by blast
    then have "fst p \<in> set column" and "snd p \<in> set column"
      by auto
    with assms have "fst p = c" and "snd p = c"
      by blast+
    then show ?thesis
      by (simp add: identity_matrix_def)
  qed
  then have "\<forall>p \<in> set (possible_combinations column). identity_matrix M (fst p) (snd p) = M"
    by blast
  then have "(\<Sum>p \<leftarrow> possible_combinations column. identity_matrix M (fst p) (snd p))
      = int (length (possible_combinations column)) * M"
    by (rule sum_list_const_int)
  then show ?thesis
    unfolding SumOfPairs_get_score_of_k_column_def score_pairs_sum
    by (simp add: length_possible_combinations)
qed

lemma SumOfPairs_evaluate_sum:
  assumes "aligned sequences"
  shows "SumOfPairs_evaluate d sequences
           = Inr (\<Sum>k<length (hd sequences).
                    SumOfPairs_get_score_of_k_column d (column_of sequences k))"
proof -
  obtain s ss where seq: "sequences = s # ss"
    using assms by (cases sequences) (auto simp: aligned_def)
  have "for_columns (\<lambda>column final_score.
            Inr (final_score + SumOfPairs_get_score_of_k_column d column))
          sequences [0..<length (hd sequences)] 0
        = Inr (foldl (\<lambda>a k. a + SumOfPairs_get_score_of_k_column d (column_of sequences k)) 0
            [0..<length (hd sequences)])"
    by (rule for_columns_ok [OF aligned_le [OF assms]]) simp_all
  then show ?thesis
    unfolding SumOfPairs_evaluate_def by (simp add: seq py_index_def foldl_add_upt)
qed

text \<open>
  C4.  For a valid alignment of \<open>n\<close> sequences, \<open>SumOfPairs.evaluate\<close> is the sum, over
  the columns, of the substitution value of the symbols at each pair of rows \<open>i < j < n\<close>:
  each of the \<open>C(n,2)\<close> unordered pairs once, no row with itself.  With
  \<open>distance('A','A') = 5\<close> the alignment \<open>["AAA","AAA","AAA"]\<close> scores 45, and a fully
  conserved alignment of \<open>n\<close> sequences and \<open>L\<close> columns under the lookup with \<open>M\<close> on the
  diagonal and 0 elsewhere scores \<open>C(n,2) * M * L\<close>.
\<close>

theorem sum_of_pairs_formula:
  assumes "aligned sequences"
  shows "SumOfPairs_evaluate d sequences
           = Inr (\<Sum>k<length (hd sequences). \<Sum>i<length sequences. \<Sum>j = Suc i..<length sequences.
                    d (sequences ! i ! k) (sequences ! j ! k))
       \<and> (\<forall>k<length (hd sequences).
            length (possible_combinations (column_of sequences k)) = length sequences choose 2)
       \<and> (d (CHR ''A'') (CHR ''A'') = 5 \<longrightarrow>
            SumOfPairs_evaluate d [''AAA'', ''AAA'', ''AAA''] = Inr 45)
       \<and> ((\<forall>s \<in> set sequences. s = hd sequences) \<longrightarrow>
            SumOfPairs_evaluate (identity_matrix M) sequences
              = Inr (int (length sequences choose 2) * M * int (length (hd sequences))))"
proof -
  have col: "SumOfPairs_get_score_of_k_column d (column_of sequences k)
      = (\<Sum>i<length sequences. \<Sum>j = Suc i..<length sequences.
            d (sequences ! i ! k) (sequences ! j ! k))" for k
    unfolding SumOfPairs_get_score_of_k_column_def score_pairs_sum
    by (simp add: sum_possible_combinations column_of_def)
  have main: "SumOfPairs_evaluate d sequences
           = Inr (\<Sum>k<length (hd sequences). \<Sum>i<length sequences. \<Sum>j = Suc i..<length sequences.
                    d (sequences ! i ! k) (sequences ! j ! k))"
    unfolding SumOfPairs_evaluate_sum [OF assms] col ..
  have cnt: "\<forall>k<length (hd sequences).
            length (possible_combinations (column_of sequences k)) = length sequences choose 2"
    by (simp add: length_possible_combinations column_of_def)
  have ex: "SumOfPairs_evaluate d [''AAA'', ''AAA'', ''AAA''] = Inr 45"
    if "d (CHR ''A'') (CHR ''A'') = 5"
    using that
    by (simp add: SumOfPairs_evaluate_def py_index_def upt_rec
        SumOfPairs_get_score_of_k_column_def get_score_of_two_chars_def)
  have cons: "SumOfPairs_evaluate (identity_matrix M) sequences
              = Inr (int (length sequences choose 2) * M * int (length (hd sequences)))"
    if "\<forall>s \<in> set sequences. s = hd sequences"
  proof -
    have "SumOfPairs_get_score_of_k_column (identity_matrix M) (column_of sequences k)
        = int (length sequences choose 2) * M" for k
      using SumOfPairs_column_conserved [of "column_of sequences k" "hd sequences ! k" M] that
      by (simp add: column_of_def)
    then show ?thesis
      unfolding SumOfPairs_evaluate_sum [OF assms] by simp
  qed
  from main cnt ex cons show ?thesis
    by blast
qed

theorem sum_of_pairs_formula_witness:
  "aligned [''AAA'', ''AAA'', ''AAA'']
   \<and> identity_matrix 5 (CHR ''A'') (CHR ''A'') = 5
   \<and> SumOfPairs_evaluate (identity_matrix 5) [''AAA'', ''AAA'', ''AAA''] = Inr 45
   \<and> SumOfPairs_evaluate (identity_matrix 5) [''AAA'', ''AAA'', ''AAA'']
       = Inr (int (length [''AAA'', ''AAA'', ''AAA''] choose 2) * 5
                * int (length (hd [''AAA'', ''AAA'', ''AAA''])))"
proof -
  have a: "aligned [''AAA'', ''AAA'', ''AAA'']"
    by (simp add: aligned_def)
  have m: "identity_matrix 5 (CHR ''A'') (CHR ''A'') = 5"
    by (simp add: identity_matrix_def)
  have c: "\<forall>s \<in> set [''AAA'', ''AAA'', ''AAA'']. s = hd [''AAA'', ''AAA'', ''AAA'']"
    by simp
  from sum_of_pairs_formula [OF a, of "identity_matrix 5" 5] a m c show ?thesis
    by blast
qed

section \<open>Dictionaries keep the order of first occurrence\<close>

lemma set_first_occurrences: "set (first_occurrences xs) = set xs"
  by (induction xs) auto

lemma distinct_first_occurrences: "distinct (first_occurrences xs)"
  by (induction xs) auto

lemma first_occurrences_snoc:
  "first_occurrences (xs @ [x])
     = (if x \<in> set xs then first_occurrences xs else first_occurrences xs @ [x])"
  by (induction xs) auto

lemma find_filter_neq: "\<not> P x \<Longrightarrow> find P (filter (\<lambda>y. y \<noteq> x) ys) = find P ys"
  by (induction ys) auto

lemma find_first_occurrences: "find P (first_occurrences xs) = find P xs"
  by (induction xs) (auto simp: find_filter_neq)

lemma find_map_pair: "find P (map h xs) = map_option h (find (\<lambda>x. P (h x)) xs)"
  by (induction xs) auto

lemma dict_set_map:
  "distinct ks \<Longrightarrow>
   dict_set (map (\<lambda>k. (k, g k)) ks) x v
     = (if x \<in> set ks then map (\<lambda>k. (k, if k = x then v else g k)) ks
        else map (\<lambda>k. (k, g k)) ks @ [(x, v)])"
  by (induction ks) auto

lemma dict_get_map:
  "dict_get (map (\<lambda>k. (k, g k)) ks) x dflt = (if x \<in> set ks then g x else dflt)"
  by (induction ks) auto

lemma dict_of_map:
  "dict_of (map (\<lambda>w. (w, f w)) ws) = map (\<lambda>k. (k, f k)) (first_occurrences ws)"
proof (induction ws rule: rev_induct)
  case Nil
  show ?case by (simp add: dict_of_def)
next
  case (snoc x ws)
  have "dict_of (map (\<lambda>w. (w, f w)) (ws @ [x]))
      = dict_set (dict_of (map (\<lambda>w. (w, f w)) ws)) x (f x)"
    by (simp add: dict_of_def)
  also have "\<dots> = dict_set (map (\<lambda>k. (k, f k)) (first_occurrences ws)) x (f x)"
    by (simp only: snoc.IH)
  also have "\<dots> = map (\<lambda>k. (k, f k)) (first_occurrences (ws @ [x]))"
    by (simp add: dict_set_map distinct_first_occurrences set_first_occurrences
        first_occurrences_snoc)
  finally show ?case .
qed

lemma Counter_map:
  "Counter xs = map (\<lambda>k. (k, count_list xs k)) (first_occurrences xs)"
proof (induction xs rule: rev_induct)
  case Nil
  show ?case by (simp add: Counter_def)
next
  case (snoc x xs)
  have "Counter (xs @ [x]) = dict_set (Counter xs) x (dict_get (Counter xs) x 0 + 1)"
    by (simp add: Counter_def)
  also have "dict_get (Counter xs) x 0 = count_list xs x"
    by (simp add: snoc.IH dict_get_map set_first_occurrences count_list_0_iff)
  also have "dict_set (Counter xs) x (count_list xs x + 1)
      = map (\<lambda>k. (k, count_list (xs @ [x]) k)) (first_occurrences (xs @ [x]))"
    by (auto simp add: snoc.IH dict_set_map distinct_first_occurrences set_first_occurrences
        first_occurrences_snoc)
  finally show ?case .
qed

section \<open>Entropy: one term per distinct symbol\<close>

lemma get_words_frequencies_map:
  "get_words_frequencies fl words
     = map (\<lambda>k. (k, frequency fl words k)) (first_occurrences words)"
proof -
  have "zip words (map (\<lambda>w. true_div fl (count_list words w) (length words)) words)
      = map (\<lambda>w. (w, frequency fl words w)) words"
    by (simp add: zip_map2 zip_same_conv_map frequency_def)
  then show ?thesis
    by (simp add: get_words_frequencies_def dict_of_map)
qed

lemma column_entropy_loop_fold:
  "\<forall>k \<in> set ks. 0 < v k \<Longrightarrow>
   column_entropy_loop fl (map (\<lambda>k. (k, v k)) ks) acc
     = Inr (foldl (\<lambda>h c. fadd fl h (fmul fl (v c) (flog fl (v c)))) acc ks)"
  by (induction ks arbitrary: acc) (simp_all add: py_log_def)

lemma column_entropy:
  assumes "\<forall>c \<in> set column. 0 < frequency fl column c"
  shows "get_column_entropy fl (get_words_frequencies fl column)
           = Inr (entropy_terms fl column (first_occurrences column))"
  unfolding get_column_entropy_def get_words_frequencies_map entropy_terms_def
  using assms by (intro column_entropy_loop_fold) (simp add: set_first_occurrences)

lemma Entropy_evaluate_per_distinct:
  assumes "aligned sequences" and "frequencies_positive fl sequences"
  shows "Entropy_evaluate fl sequences = Inr (entropy_per_distinct fl sequences)"
proof -
  obtain s ss where seq: "sequences = s # ss"
    using assms(1) by (cases sequences) (auto simp: aligned_def)
  let ?h = "\<lambda>k. entropy_terms fl (column_of sequences k)
                    (first_occurrences (column_of sequences k))"
  have col: "get_column_entropy fl (get_words_frequencies fl (column_of sequences k))
      = Inr (?h k)" if "k < length (hd sequences)" for k
    using assms(2) that by (intro column_entropy) (simp add: frequencies_positive_def)
  have "for_columns (\<lambda>column final_score.
            case get_column_entropy fl (get_words_frequencies fl column) of
              Inl e \<Rightarrow> Inl e
            | Inr h \<Rightarrow> Inr (fadd fl final_score h))
          sequences [0..<length (hd sequences)] 0
        = Inr (foldl (\<lambda>a k. fadd fl a (?h k)) 0 [0..<length (hd sequences)])"
    by (rule for_columns_ok [OF aligned_le [OF assms(1)]]) (simp_all add: col)
  then show ?thesis
    unfolding Entropy_evaluate_def entropy_per_distinct_def by (simp add: seq py_index_def)
qed

text \<open>
  C1.  For a valid alignment whose frequencies are positive floats, \<open>Entropy.evaluate\<close>
  is the floating-point sum, over the columns, of \<open>frequency * log frequency\<close> taken
  once per distinct symbol of the column: the frequencies are put in a dict keyed by
  symbol, so a symbol that occurs \<open>m\<close> times in a column of \<open>n\<close> sequences contributes the
  term of the frequency \<open>m / n\<close> once.
\<close>

theorem entropy_formula:
  assumes "aligned sequences" and "frequencies_positive fl sequences"
  shows "Entropy_evaluate fl sequences = Inr (entropy_per_distinct fl sequences)"
  using assms by (rule Entropy_evaluate_per_distinct)

text \<open>A rounding that keeps positive numbers positive gives positive frequencies.\<close>

lemma frequencies_positive_if:
  assumes "aligned sequences" and "\<forall>x. 0 < x \<longrightarrow> 0 < rnd fl x"
  shows "frequencies_positive fl sequences"
proof -
  have "0 < frequency fl column c" if "c \<in> set column" for column c
  proof -
    have "count_list column c \<noteq> 0"
      using that by (simp add: count_list_0_iff)
    moreover have "column \<noteq> []"
      using that by auto
    ultimately have "0 < real (count_list column c) / real (length column)"
      by simp
    then show ?thesis
      using assms(2) by (simp add: frequency_def true_div_def)
  qed
  then show ?thesis
    by (simp add: frequencies_positive_def)
qed

text \<open>Binary64 rounding does: in binary64 the frequencies are always positive.\<close>

lemma frequencies_positive_binary64:
  assumes "aligned sequences"
  shows "frequencies_positive binary64_ops sequences"
proof -
  have "\<forall>x. 0 < x \<longrightarrow> 0 < rnd binary64_ops x"
    by (simp add: rnd_binary64_ops binary64_pos)
  with assms show ?thesis
    by (rule frequencies_positive_if)
qed

theorem entropy_formula_witness:
  "aligned [''A'', ''A'', ''B'', ''B'']
   \<and> frequencies_positive binary64_ops [''A'', ''A'', ''B'', ''B'']
   \<and> Entropy_evaluate binary64_ops [''A'', ''A'', ''B'', ''B'']
       = Inr (entropy_per_distinct binary64_ops [''A'', ''A'', ''B'', ''B''])"
proof -
  have a: "aligned [''A'', ''A'', ''B'', ''B'']"
    by (simp add: aligned_def)
  then have p: "frequencies_positive binary64_ops [''A'', ''A'', ''B'', ''B'']"
    by (rule frequencies_positive_binary64)
  from entropy_formula [OF a p] a p show ?thesis
    by blast
qed

text \<open>
  The sum is not per occurrence.  On the column \<open>A, A, B, B\<close> both symbols have the
  frequency 1/2 and the same negative term \<open>t\<close>: the code adds it twice, the sum per
  occurrence four times, and the rounding is too fine to make the two results meet.
\<close>

lemma close_rounding_neg:
  assumes "close_rounding fl" and "x < 0"
  shows "33 / 32 * x \<le> rnd fl x" and "rnd fl x \<le> 31 / 32 * x"
proof -
  have "\<bar>rnd fl x - x\<bar> \<le> \<bar>x\<bar> / 32"
    using assms(1) by (simp add: close_rounding_def)
  then show "33 / 32 * x \<le> rnd fl x" and "rnd fl x \<le> 31 / 32 * x"
    using assms(2) by (simp_all add: abs_if split: if_splits)
qed

lemma close_rounding_pos:
  assumes "close_rounding fl" and "0 < x"
  shows "31 / 32 * x \<le> rnd fl x" and "rnd fl x \<le> 33 / 32 * x"
proof -
  have "\<bar>rnd fl x - x\<bar> \<le> \<bar>x\<bar> / 32"
    using assms(1) by (simp add: close_rounding_def)
  then show "31 / 32 * x \<le> rnd fl x" and "rnd fl x \<le> 33 / 32 * x"
    using assms(2) by (simp_all add: abs_if split: if_splits)
qed

lemma entropy_differs:
  assumes cr: "close_rounding fl"
  shows "Entropy_evaluate fl [''A'', ''A'', ''B'', ''B'']
           \<noteq> Inr (entropy_per_occurrence fl [''A'', ''A'', ''B'', ''B''])"
proof -
  let ?X = "[''A'', ''A'', ''B'', ''B'']"
  define v where "v = rnd fl (1 / 2)"
  define t where "t = rnd fl (v * flog fl v)"
  define a1 where "a1 = rnd fl t"
  define a2 where "a2 = rnd fl (a1 + t)"
  define a3 where "a3 = rnd fl (a2 + t)"
  define a4 where "a4 = rnd fl (a3 + t)"
  have v: "0 < v" "v < 1"
    using close_rounding_pos [OF cr, of "1 / 2"] by (simp_all add: v_def)
  then have "flog fl v < 0"
    using cr by (simp add: close_rounding_def)
  then have "v * flog fl v < 0"
    using v by (simp add: mult_pos_neg)
  then have t: "t < 0"
    using close_rounding_neg [OF cr] by (fastforce simp: t_def)
  have b1: "33 / 32 * t \<le> a1" "a1 \<le> 31 / 32 * t"
    using close_rounding_neg [OF cr t] by (simp_all add: a1_def)
  then have n1: "a1 + t < 0"
    using t by simp
  have b2: "33 / 32 * (a1 + t) \<le> a2" "a2 \<le> 31 / 32 * (a1 + t)"
    using close_rounding_neg [OF cr n1] by (simp_all add: a2_def)
  then have n2: "a2 < 0" "a2 + t < 0"
    using n1 t by simp_all
  have b3: "a3 \<le> 31 / 32 * (a2 + t)"
    using close_rounding_neg [OF cr n2(2)] by (simp add: a3_def)
  then have n3: "a3 + t < 0"
    using n2 t by simp
  have b4: "a4 \<le> 31 / 32 * (a3 + t)"
    using close_rounding_neg [OF cr n3] by (simp add: a4_def)
  then have n4: "a4 < 0"
    using n3 by simp
  have c: "33 / 32 * a2 \<le> rnd fl a2"
    using close_rounding_neg [OF cr n2(1)] by simp
  have p: "rnd fl a4 \<le> 31 / 32 * a4"
    using close_rounding_neg [OF cr n4] by simp
  have u2: "a2 \<le> 19 / 10 * t"
    using t b1 b2 by argo
  have l2: "21 / 10 * t \<le> a2"
    using t b1 b2 by argo
  have u3: "a3 \<le> 28 / 10 * t"
    using t u2 b3 by argo
  have u4: "a4 \<le> 36 / 10 * t"
    using t u3 b4 by argo
  have less: "rnd fl a4 < rnd fl a2"
    using t u4 l2 c p by argo
  have col: "column_of ?X 0 = ''AABB''"
    by (simp add: column_of_def)
  have fA: "frequency fl ''AABB'' (CHR ''A'') = v" and fB: "frequency fl ''AABB'' (CHR ''B'') = v"
    by (simp_all add: frequency_def true_div_def v_def)
  have pos: "frequencies_positive fl ?X"
    using v by (simp add: frequencies_positive_def col fA fB)
  have "Entropy_evaluate fl ?X = Inr (entropy_per_distinct fl ?X)"
    by (rule Entropy_evaluate_per_distinct) (simp_all add: aligned_def pos)
  also have "entropy_per_distinct fl ?X = rnd fl a2"
    by (simp add: entropy_per_distinct_def entropy_terms_def col fA fB fadd_def fmul_def
        a2_def a1_def t_def)
  finally have code: "Entropy_evaluate fl ?X = Inr (rnd fl a2)" .
  have "entropy_per_occurrence fl ?X = rnd fl a4"
    by (simp add: entropy_per_occurrence_def entropy_terms_def col fA fB fadd_def fmul_def
        a4_def a3_def a2_def a1_def t_def)
  then show ?thesis
    using less code by simp
qed

theorem entropy_not_per_occurrence:
  "Entropy_evaluate binary64_ops [''A'', ''A'', ''B'', ''B'']
     \<noteq> Inr (entropy_per_occurrence binary64_ops [''A'', ''A'', ''B'', ''B''])"
  using close_rounding_binary64 by (rule entropy_differs)

section \<open>Star: the majority symbol\<close>

lemma max_by_count_find:
  "find (\<lambda>p. \<forall>q \<in> set (best # items). snd q \<le> snd p) (best # items)
     = Some (max_by_count best items)"
proof (induction items arbitrary: best)
  case Nil
  show ?case by simp
next
  case (Cons item items)
  show ?case
  proof (cases "snd best < snd item")
    case True
    have "find (\<lambda>p. \<forall>q \<in> set (best # item # items). snd q \<le> snd p) (item # items)
        = find (\<lambda>p. \<forall>q \<in> set (item # items). snd q \<le> snd p) (item # items)"
      using True by (intro find_cong refl) auto
    then show ?thesis
      using True Cons.IH [of item] by auto
  next
    case False
    show ?thesis
    proof (cases "\<forall>q \<in> set (best # items). snd q \<le> snd best")
      case all: True
      then show ?thesis
        using False Cons.IH [of best] by auto
    next
      case notall: False
      let ?P = "\<lambda>p. \<forall>q \<in> set (best # items). snd q \<le> snd p"
      let ?P' = "\<lambda>p. \<forall>q \<in> set (best # item # items). snd q \<le> snd p"
      have nb: "\<not> ?P' best"
        using notall by auto
      have ni: "\<not> ?P' item"
        using False notall by fastforce
      have "find ?P' (best # item # items) = find ?P' items"
        using nb ni by (simp only: find.simps if_False)
      also have "\<dots> = find ?P items"
        using False by (intro find_cong refl) auto
      also have "\<dots> = find ?P (best # items)"
        using notall by (simp only: find.simps if_False)
      also have "\<dots> = Some (max_by_count best items)"
        by (rule Cons.IH)
      also have "max_by_count best items = max_by_count best (item # items)"
        using False by simp
      finally show ?thesis .
    qed
  qed
qed

lemma most_common_1_Counter:
  assumes "column \<noteq> []"
  shows "\<exists>m. majority_symbol column = Some m
           \<and> most_common_1 (Counter column) = [(m, count_list column m)]"
proof -
  let ?h = "\<lambda>k. (k, count_list column k)"
  let ?items = "map ?h (first_occurrences column)"
  obtain item rest where items: "?items = item # rest"
    using assms by (cases column) auto
  have "find (\<lambda>p. \<forall>q \<in> set ?items. snd q \<le> snd p) ?items = Some (max_by_count item rest)"
    unfolding items by (rule max_by_count_find)
  moreover have "find (\<lambda>p. \<forall>q \<in> set ?items. snd q \<le> snd p) ?items
      = map_option ?h (majority_symbol column)"
    unfolding majority_symbol_def find_map_pair find_first_occurrences
    by (simp add: set_first_occurrences)
  ultimately obtain m where m: "majority_symbol column = Some m"
      and mx: "max_by_count item rest = (m, count_list column m)"
    by (cases "majority_symbol column") auto
  have "most_common_1 (Counter column) = [max_by_count item rest]"
    unfolding Counter_map items most_common_1_def by simp
  with m mx show ?thesis
    by simp
qed

lemma score_against_sum:
  "score_against d m column acc = acc + (\<Sum>c \<leftarrow> column. d m c)"
  by (induction column arbitrary: acc) (simp_all add: get_score_of_two_chars_def)

lemma Star_column:
  assumes "majority_symbol column = Some m"
  shows "Star_get_score_of_k_column d column = Inr (\<Sum>c \<leftarrow> column. d m c)"
proof -
  have "column \<noteq> []"
    using assms by (auto simp: majority_symbol_def)
  from most_common_1_Counter [OF this] assms
  have "most_common_1 (Counter column) = [(m, count_list column m)]"
    by auto
  then show ?thesis
    by (simp add: Star_get_score_of_k_column_def py_index_def score_against_sum)
qed

lemma majority_symbol_column:
  assumes "sequences \<noteq> []"
  shows "majority_symbol (column_of sequences k) \<noteq> None"
proof -
  have "column_of sequences k \<noteq> []"
    using assms by (simp add: column_of_def)
  from most_common_1_Counter [OF this] show ?thesis
    by auto
qed

lemma majority_symbol_conserved:
  assumes "column \<noteq> []" and "\<forall>y \<in> set column. y = c"
  shows "majority_symbol column = Some c"
proof -
  obtain x xs where col: "column = x # xs"
    using assms(1) by (cases column) auto
  have "x = c"
    using assms(2) col by simp
  moreover have "\<forall>y \<in> set column. count_list column y \<le> count_list column c"
    using assms(2) by simp
  ultimately show ?thesis
    unfolding majority_symbol_def by (simp add: col)
qed

text \<open>
  The tie between \<open>A\<close> and \<open>B\<close> goes to the one that occurs first in the column.
\<close>

lemma majority_symbol_tie: "majority_symbol ''ABBA'' = Some (CHR ''A'')"
  by (simp add: majority_symbol_def)

lemma Star_tie_example: "Star_get_score_of_k_column d ''BAAB'' = Inr (d CHR ''B'' CHR ''B'' + d CHR ''B'' CHR ''A'' + d CHR ''B'' CHR ''A'' + d CHR ''B'' CHR ''B'')"
  by (simp add: Star_get_score_of_k_column_def Counter_def most_common_1_def py_index_def get_score_of_two_chars_def)

text \<open>
  C3.  For a valid alignment every column has a majority symbol: of the symbols with the
  largest count, the one that occurs first.  \<open>Star.evaluate\<close> is the sum, over the columns,
  of the substitution value between the majority symbol and each symbol of the column,
  the majority symbol's own occurrences included.  Hence a fully conserved alignment of
  \<open>n\<close> sequences and \<open>L\<close> columns, under the lookup with \<open>M\<close> on the diagonal and 0
  elsewhere, scores \<open>n * M * L\<close>.
\<close>

theorem star_formula:
  assumes "aligned sequences"
  shows "(\<forall>k<length (hd sequences). majority_symbol (column_of sequences k) \<noteq> None)
       \<and> Star_evaluate d sequences
           = Inr (\<Sum>k<length (hd sequences). \<Sum>c \<leftarrow> column_of sequences k.
                    d (the (majority_symbol (column_of sequences k))) c)
       \<and> ((\<forall>s \<in> set sequences. s = hd sequences) \<longrightarrow>
            Star_evaluate (identity_matrix M) sequences
              = Inr (int (length sequences) * M * int (length (hd sequences))))"
proof -
  obtain s ss where seq: "sequences = s # ss"
    using assms by (cases sequences) (auto simp: aligned_def)
  have ne: "sequences \<noteq> []"
    by (simp add: seq)
  have maj: "\<forall>k<length (hd sequences). majority_symbol (column_of sequences k) \<noteq> None"
    using majority_symbol_column [OF ne] by blast
  have col: "Star_get_score_of_k_column d' (column_of sequences k)
      = Inr (\<Sum>c \<leftarrow> column_of sequences k. d' (the (majority_symbol (column_of sequences k))) c)"
    for k d'
  proof -
    obtain m where "majority_symbol (column_of sequences k) = Some m"
      using majority_symbol_column [OF ne, of k] by auto
    then show ?thesis
      by (simp add: Star_column)
  qed
  have main: "Star_evaluate d' sequences
           = Inr (\<Sum>k<length (hd sequences). \<Sum>c \<leftarrow> column_of sequences k.
                    d' (the (majority_symbol (column_of sequences k))) c)" for d'
  proof -
    let ?g = "\<lambda>k. \<Sum>c \<leftarrow> column_of sequences k.
                    d' (the (majority_symbol (column_of sequences k))) c"
    have "for_columns (\<lambda>column final_score.
              case Star_get_score_of_k_column d' column of
                Inl e \<Rightarrow> Inl e
              | Inr s \<Rightarrow> Inr (final_score + s))
            sequences [0..<length (hd sequences)] 0
          = Inr (foldl (\<lambda>a k. a + ?g k) 0 [0..<length (hd sequences)])"
      by (rule for_columns_ok [OF aligned_le [OF assms]]) (simp_all add: col)
    then show ?thesis
      unfolding Star_evaluate_def by (simp add: seq py_index_def foldl_add_upt)
  qed
  have cons: "Star_evaluate (identity_matrix M) sequences
              = Inr (int (length sequences) * M * int (length (hd sequences)))"
    if "\<forall>s \<in> set sequences. s = hd sequences"
  proof -
    have "(\<Sum>c \<leftarrow> column_of sequences k.
              identity_matrix M (the (majority_symbol (column_of sequences k))) c)
        = int (length sequences) * M" for k
    proof -
      have all: "\<forall>y \<in> set (column_of sequences k). y = hd sequences ! k"
        using that by (auto simp: column_of_def)
      have "column_of sequences k \<noteq> []"
        using ne by (simp add: column_of_def)
      then have "majority_symbol (column_of sequences k) = Some (hd sequences ! k)"
        using all by (rule majority_symbol_conserved)
      moreover have "\<forall>c \<in> set (column_of sequences k).
          identity_matrix M (hd sequences ! k) c = M"
        using all by (simp add: identity_matrix_def)
      then have "(\<Sum>c \<leftarrow> column_of sequences k. identity_matrix M (hd sequences ! k) c)
          = int (length (column_of sequences k)) * M"
        by (rule sum_list_const_int)
      ultimately show ?thesis
        by (simp add: column_of_def)
    qed
    then show ?thesis
      unfolding main by simp
  qed
  from maj main [of d] cons show ?thesis
    by blast
qed

theorem star_formula_witness:
  "aligned [''AAA'', ''AAA'', ''AAA'']
   \<and> Star_evaluate (identity_matrix 5) [''AAA'', ''AAA'', ''AAA'']
       = Inr (int (length [''AAA'', ''AAA'', ''AAA'']) * 5
                * int (length (hd [''AAA'', ''AAA'', ''AAA''])))"
proof -
  have a: "aligned [''AAA'', ''AAA'', ''AAA'']"
    by (simp add: aligned_def)
  have c: "\<forall>s \<in> set [''AAA'', ''AAA'', ''AAA'']. s = hd [''AAA'', ''AAA'', ''AAA'']"
    by simp
  from star_formula [OF a, of "identity_matrix 5" 5] a c show ?thesis
    by blast
qed

section \<open>Strike: staging and download\<close>




lemma keeps_makedirs: "keeps w (makedirs w p)"
  by (simp add: keeps_def makedirs_def)

























end
